theory Spec2Isabelle
  imports Complex_Main "HOL-Library.Sublist" "HOL-Library.AList"
begin

section \<open>Feature union with heterogeneous data sources: the notebook's transformers\<close>

text \<open>
  The notebook \<^verbatim>\<open>feature-union.ipynb\<close> defines three small transformers
  (\<^verbatim>\<open>ItemSelector\<close>, \<^verbatim>\<open>TextStats\<close>, \<^verbatim>\<open>SubjectBodyExtractor\<close>) and wires them, with
  estimators of an external library, into one pipeline. This theory embeds the three
  transformers and the pipeline's configuration.

  Python strings are modelled as \<^typ>\<open>string\<close> (lists of characters), Python's
  exceptions as values of the type \<open>error\<close>, and a call that may raise returns
  \<open>error + 'a\<close> with \<open>Inl\<close> the exception.
\<close>

subsection \<open>Exceptions\<close>

datatype error = KeyError | IndexError | ValueError

text \<open>Python's class hierarchy: \<^verbatim>\<open>KeyError\<close> and \<^verbatim>\<open>IndexError\<close> derive from
  \<^verbatim>\<open>LookupError\<close>, \<^verbatim>\<open>ValueError\<close> does not.\<close>

fun is_LookupError :: "error \<Rightarrow> bool" where
  "is_LookupError KeyError = True"
| "is_LookupError IndexError = True"
| "is_LookupError ValueError = False"

subsection \<open>The string methods the notebook calls\<close>

text \<open>\<^verbatim>\<open>s.startswith(prefix)\<close>\<close>

definition startswith :: "'a list \<Rightarrow> 'a list \<Rightarrow> bool" where
  "startswith s p = (take (length p) s = p)"

text \<open>\<^verbatim>\<open>s.find(sub)\<close>: the lowest index at which \<open>sub\<close> occurs in \<open>s\<close>
  (\<open>None\<close> for Python's \<open>-1\<close>).\<close>

fun str_find :: "'a list \<Rightarrow> 'a list \<Rightarrow> nat option" where
  "str_find [] sub = (if sub = [] then Some 0 else None)"
| "str_find (c # cs) sub =
     (if startswith (c # cs) sub then Some 0 else map_option Suc (str_find cs sub))"

text \<open>\<^verbatim>\<open>s.partition(sep)\<close>: the part before the first occurrence of \<open>sep\<close>, the
  separator, and the part after it; \<open>(s, '', '')\<close> when \<open>sep\<close> does not occur;
  \<^verbatim>\<open>ValueError\<close> on an empty separator.\<close>

definition partition_str :: "'a list \<Rightarrow> 'a list \<Rightarrow> error + ('a list \<times> 'a list \<times> 'a list)" where
  "partition_str s sep =
     (if sep = [] then Inl ValueError
      else case str_find s sep of
             None \<Rightarrow> Inr (s, [], [])
           | Some i \<Rightarrow> Inr (take i s, sep, drop (i + length sep) s))"

text \<open>\<^verbatim>\<open>s.split(sep)\<close> for a non-empty separator: cut at every occurrence of
  \<open>sep\<close>, scanning from the left.\<close>

function split_at :: "'a list \<Rightarrow> 'a list \<Rightarrow> 'a list list" where
  "split_at s sep =
     (if sep = [] then [s]
      else case str_find s sep of
             None \<Rightarrow> [s]
           | Some i \<Rightarrow> take i s # split_at (drop (i + length sep) s) sep)"
  by pat_completeness auto
termination
proof (relation "measure (\<lambda>(s, sep). length s)")
  show "wf (measure (\<lambda>(s, sep). length s))" by simp
next
  fix s sep :: "'a list" and i :: nat
  assume ne: "sep \<noteq> []" and found: "str_find s sep = Some i"
  have bound: "i + length sep \<le> length t" if "str_find t sep = Some i" for t i
    using that
  proof (induction t arbitrary: i)
    case Nil
    then show ?case by (simp split: if_splits)
  next
    case (Cons c cs)
    show ?case
    proof (cases "startswith (c # cs) sep")
      case True
      then have "length (take (length sep) (c # cs)) = length sep"
        by (simp only: startswith_def)
      then have "length sep \<le> length (c # cs)"
        by simp
      with True Cons.prems show ?thesis by simp
    next
      case False
      with Cons.prems obtain j where "str_find cs sep = Some j" "i = Suc j"
        by auto
      with Cons.IH show ?thesis by fastforce
    qed
  qed
  from bound [OF found] ne have "0 < length s" "0 < i + length sep"
    by (cases s; simp)+
  then show "((drop (i + length sep) s, sep), (s, sep)) \<in> measure (\<lambda>(s, sep). length s)"
    by simp
qed

declare split_at.simps [simp del]

text \<open>\<^verbatim>\<open>s.split(sep)\<close>: \<^verbatim>\<open>ValueError\<close> on an empty separator.\<close>

definition split_str :: "'a list \<Rightarrow> 'a list \<Rightarrow> error + 'a list list" where
  "split_str s sep = (if sep = [] then Inl ValueError else Inr (split_at s sep))"

text \<open>\<^verbatim>\<open>s.count(sub)\<close>: the number of non-overlapping occurrences of \<open>sub\<close> in
  \<open>s\<close>, scanning from the left; \<open>len(s) + 1\<close> for the empty \<open>sub\<close>.\<close>

function count_str :: "'a list \<Rightarrow> 'a list \<Rightarrow> nat" where
  "count_str s sub =
     (if sub = [] then length s + 1
      else case str_find s sub of
             None \<Rightarrow> 0
           | Some i \<Rightarrow> 1 + count_str (drop (i + length sub) s) sub)"
  by pat_completeness auto
termination
proof (relation "measure (\<lambda>(s, sub). length s)")
  show "wf (measure (\<lambda>(s, sub). length s))" by simp
next
  fix s sub :: "'a list" and i :: nat
  assume ne: "sub \<noteq> []" and found: "str_find s sub = Some i"
  have "s \<noteq> []"
    using ne found by (cases s) simp_all
  moreover have "0 < i + length sub"
    using ne by simp
  ultimately show "((drop (i + length sub) s, sub), (s, sub)) \<in> measure (\<lambda>(s, sub). length s)"
    by simp
qed

declare count_str.simps [simp del]

subsection \<open>ItemSelector\<close>

text \<open>
  \<^verbatim>\<open>
  class ItemSelector(BaseEstimator, TransformerMixin):
      def __init__(self, key):
          self.key = key
      def fit(self, x, y=None):
          return self
      def transform(self, data_dict):
          return data_dict[self.key]
  \<close>
  The class's docstring: ``ItemSelector only requires that the collection implement
  getitem (\<^verbatim>\<open>data[key]\<close>). Examples include: a dict of lists, 2D numpy array, Pandas
  DataFrame, numpy record array, etc.'' Two of these collections occur here: the
  \<^verbatim>\<open>dict\<close> of the docstring's own example, a map from keys to values, and the numpy record
  array that \<^verbatim>\<open>SubjectBodyExtractor\<close> returns and the pipeline hands to the selectors,
  the list of its named columns in the order of the \<^verbatim>\<open>dtype\<close>. What
  \<^verbatim>\<open>data[key]\<close> raises on an absent key is the collection's own choice: a \<^verbatim>\<open>dict\<close>
  raises \<^verbatim>\<open>KeyError\<close>, a record array raises \<^verbatim>\<open>ValueError\<close> (``no field of name'').
\<close>

datatype ('k, 'v) collection = Dict "'k \<rightharpoonup> 'v" | RecArray "('k \<times> 'v) list"

fun getitem :: "('k, 'v) collection \<Rightarrow> 'k \<Rightarrow> error + 'v" where
  "getitem (Dict d) k = (case d k of None \<Rightarrow> Inl KeyError | Some v \<Rightarrow> Inr v)"
| "getitem (RecArray a) k = (case map_of a k of None \<Rightarrow> Inl ValueError | Some v \<Rightarrow> Inr v)"

text \<open>The value stored under each key of a collection.\<close>

fun items :: "('k, 'v) collection \<Rightarrow> ('k \<rightharpoonup> 'v)" where
  "items (Dict d) = d"
| "items (RecArray a) = map_of a"

record 'k ItemSelector =
  key :: 'k

definition ItemSelector_init :: "'k \<Rightarrow> 'k ItemSelector" where
  "ItemSelector_init k = \<lparr>key = k\<rparr>"

text \<open>\<open>fit\<close> returns the object it was called on; the model returns the object's
  state after the call.\<close>

definition ItemSelector_fit :: "'k ItemSelector \<Rightarrow> 'x \<Rightarrow> 'y option \<Rightarrow> 'k ItemSelector" where
  "ItemSelector_fit self x y = self"

definition ItemSelector_transform :: "'k ItemSelector \<Rightarrow> ('k, 'v) collection \<Rightarrow> error + 'v" where
  "ItemSelector_transform self data_dict = getitem data_dict (key self)"

subsection \<open>TextStats\<close>

text \<open>
  \<^verbatim>\<open>
  class TextStats(BaseEstimator, TransformerMixin):
      def fit(self, x, y=None):
          return self
      def transform(self, posts):
          return [{'length': len(text),
                   'num_sentences': text.count('.')}
                  for text in posts]
  \<close>
  Each record is a \<^verbatim>\<open>dict\<close> from the two names to Python integers.
\<close>

definition TextStats_transform :: "string list \<Rightarrow> (string \<rightharpoonup> int) list" where
  "TextStats_transform posts =
     map (\<lambda>text. [''length'' \<mapsto> int (length text),
                  ''num_sentences'' \<mapsto> int (count_str text ''.'')]) posts"

subsection \<open>SubjectBodyExtractor\<close>

text \<open>
  \<^verbatim>\<open>
  class SubjectBodyExtractor(BaseEstimator, TransformerMixin):
      def fit(self, x, y=None):
          return self
      def transform(self, posts):
          features = np.recarray(shape=(len(posts),),
                                 dtype=[('subject', object), ('body', object)])
          for i, text in enumerate(posts):
              headers, _, bod = text.partition('\n\n')
              bod = strip_newsgroup_footer(bod)
              bod = strip_newsgroup_quoting(bod)
              features['body'][i] = bod

              prefix = 'Subject:'
              sub = ''
              for line in headers.split('\n'):
                  if line.startswith(prefix):
                      sub = line[len(prefix):]
                      break
              features['subject'][i] = sub

          return features
  \<close>
  The record array is the list of its named columns, in the order of the \<^verbatim>\<open>dtype\<close>;
  a cell of an \<^verbatim>\<open>object\<close> column holds a Python object, here \<^verbatim>\<open>None\<close> (the content
  of a fresh array) or a string. \<^verbatim>\<open>features[name]\<close> is the column, as in
  \<^const>\<open>getitem\<close>; storing at a row outside the column raises \<^verbatim>\<open>IndexError\<close>.

  \<^verbatim>\<open>strip_newsgroup_footer\<close> and \<^verbatim>\<open>strip_newsgroup_quoting\<close> are imported from the
  external library and are not part of the notebook: they are parameters of the model,
  functions from strings to strings.
\<close>

datatype dtype = Object

type_synonym recarray = "(string \<times> string option list) list"

definition np_recarray :: "nat \<Rightarrow> (string \<times> dtype) list \<Rightarrow> recarray" where
  "np_recarray shape dt = map (\<lambda>(name, _). (name, replicate shape None)) dt"

text \<open>\<^verbatim>\<open>features[name][i] = v\<close>\<close>

definition setitem :: "recarray \<Rightarrow> string \<Rightarrow> nat \<Rightarrow> string \<Rightarrow> error + recarray" where
  "setitem features name i v =
     (case getitem (RecArray features) name of
        Inl e \<Rightarrow> Inl e
      | Inr column \<Rightarrow>
          if i < length column
          then Inr (AList.update name (column[i := Some v]) features)
          else Inl IndexError)"

text \<open>The inner loop over the header lines, with \<open>sub\<close> the value of the variable
  before the loop and \<open>pfx\<close> the value of \<open>prefix\<close>; \<^verbatim>\<open>break\<close> ends it at the first
  line that starts with the prefix.\<close>

fun scan_lines :: "string \<Rightarrow> string \<Rightarrow> string list \<Rightarrow> string" where
  "scan_lines pfx sub [] = sub"
| "scan_lines pfx sub (line # lines) =
     (if startswith line pfx then drop (length pfx) line
      else scan_lines pfx sub lines)"

text \<open>The body of the outer loop, for the document \<open>text\<close> at index \<open>i\<close>.\<close>

definition transform_post ::
  "(string \<Rightarrow> string) \<Rightarrow> (string \<Rightarrow> string) \<Rightarrow> recarray \<Rightarrow> nat \<Rightarrow> string \<Rightarrow> error + recarray" where
  "transform_post strip_newsgroup_footer strip_newsgroup_quoting features i text =
     (case partition_str text ''\<newline>\<newline>'' of
        Inl e \<Rightarrow> Inl e
      | Inr (headers, _, bod) \<Rightarrow>
          (let bod = strip_newsgroup_footer bod;
               bod = strip_newsgroup_quoting bod
           in case setitem features ''body'' i bod of
                Inl e \<Rightarrow> Inl e
              | Inr features \<Rightarrow>
                  (let prefix = ''Subject:'';
                       sub = ''''
                   in case split_str headers ''\<newline>'' of
                        Inl e \<Rightarrow> Inl e
                      | Inr lines \<Rightarrow>
                          setitem features ''subject'' i (scan_lines prefix sub lines))))"

text \<open>\<^verbatim>\<open>for i, text in enumerate(posts)\<close>, from index \<open>i\<close> on.\<close>

fun transform_loop ::
  "(string \<Rightarrow> string) \<Rightarrow> (string \<Rightarrow> string) \<Rightarrow> nat \<Rightarrow> string list \<Rightarrow> recarray \<Rightarrow> error + recarray" where
  "transform_loop sf sq i [] features = Inr features"
| "transform_loop sf sq i (text # posts) features =
     (case transform_post sf sq features i text of
        Inl e \<Rightarrow> Inl e
      | Inr features \<Rightarrow> transform_loop sf sq (Suc i) posts features)"

definition SubjectBodyExtractor_transform ::
  "(string \<Rightarrow> string) \<Rightarrow> (string \<Rightarrow> string) \<Rightarrow> string list \<Rightarrow> error + recarray" where
  "SubjectBodyExtractor_transform strip_newsgroup_footer strip_newsgroup_quoting posts =
     transform_loop strip_newsgroup_footer strip_newsgroup_quoting 0 posts
       (np_recarray (length posts) [(''subject'', Object), (''body'', Object)])"

text \<open>The values the loop body computes for one document: the two parts of
  \<^verbatim>\<open>text.partition('\n\n')\<close> that it keeps, the subject and the body.\<close>

definition headers_of :: "string \<Rightarrow> string" where
  "headers_of text =
     (case str_find text ''\<newline>\<newline>'' of None \<Rightarrow> text | Some i \<Rightarrow> take i text)"

definition bod_of :: "string \<Rightarrow> string" where
  "bod_of text =
     (case str_find text ''\<newline>\<newline>'' of None \<Rightarrow> '''' | Some i \<Rightarrow> drop (i + 2) text)"

definition subject_of :: "string \<Rightarrow> string" where
  "subject_of text = scan_lines ''Subject:'' '''' (split_at (headers_of text) ''\<newline>'')"

definition body_of :: "(string \<Rightarrow> string) \<Rightarrow> (string \<Rightarrow> string) \<Rightarrow> string \<Rightarrow> string" where
  "body_of strip_newsgroup_footer strip_newsgroup_quoting text =
     strip_newsgroup_quoting (strip_newsgroup_footer (bod_of text))"

subsection \<open>The pipeline's configuration\<close>

text \<open>
  The notebook builds one \<^verbatim>\<open>Pipeline\<close> object from constructor calls; the model keeps
  the constructor arguments that the notebook writes.
  \<^verbatim>\<open>
  pipeline = Pipeline([
      ('subjectbody', SubjectBodyExtractor()),
      ('union', FeatureUnion(
          transformer_list=[
              ('subject', Pipeline([
                  ('selector', ItemSelector(key='subject')),
                  ('tfidf', TfidfVectorizer(min_df=50)),
              ])),
              ('body_bow', Pipeline([
                  ('selector', ItemSelector(key='body')),
                  ('tfidf', TfidfVectorizer()),
                  ('best', TruncatedSVD(n_components=50)),
              ])),
              ('body_stats', Pipeline([
                  ('selector', ItemSelector(key='body')),
                  ('stats', TextStats()),
                  ('vect', DictVectorizer()),
              ])),
          ],
          transformer_weights={
              'subject': 0.8,
              'body_bow': 0.5,
              'body_stats': 1.0,
          },
      )),
      ('svc', SVC(kernel='linear')),
  ])
  \<close>
  The weights are the decimal literals of the source, read as real numbers; the
  dictionary of weights is kept as the list of its items in the order written. What the
  library's estimators compute (\<^verbatim>\<open>Pipeline\<close>, \<^verbatim>\<open>FeatureUnion\<close>, the vectorizers, the
  classifier) is the library's code and is not embedded here.
\<close>

datatype estimator =
    SubjectBodyExtractor
  | ItemSelector "string ItemSelector"
  | TfidfVectorizer "nat option"
  | TruncatedSVD nat
  | TextStats
  | DictVectorizer
  | SVC string
  | Pipeline "(string \<times> estimator) list"
  | FeatureUnion "(string \<times> estimator) list" "(string \<times> real) list"

fun steps :: "estimator \<Rightarrow> (string \<times> estimator) list" where
  "steps (Pipeline named) = named"
| "steps _ = []"

fun transformer_list :: "estimator \<Rightarrow> (string \<times> estimator) list" where
  "transformer_list (FeatureUnion named weights) = named"
| "transformer_list _ = []"

fun transformer_weights :: "estimator \<Rightarrow> (string \<times> real) list" where
  "transformer_weights (FeatureUnion named weights) = weights"
| "transformer_weights _ = []"

definition pipeline :: estimator where
  "pipeline = Pipeline [
     (''subjectbody'', SubjectBodyExtractor),
     (''union'', FeatureUnion
        [(''subject'', Pipeline [
            (''selector'', ItemSelector (ItemSelector_init ''subject'')),
            (''tfidf'', TfidfVectorizer (Some 50))]),
         (''body_bow'', Pipeline [
            (''selector'', ItemSelector (ItemSelector_init ''body'')),
            (''tfidf'', TfidfVectorizer None),
            (''best'', TruncatedSVD 50)]),
         (''body_stats'', Pipeline [
            (''selector'', ItemSelector (ItemSelector_init ''body'')),
            (''stats'', TextStats),
            (''vect'', DictVectorizer)])]
        [(''subject'', 0.8), (''body_bow'', 0.5), (''body_stats'', 1.0)]),
     (''svc'', SVC ''linear'')]"

subsection \<open>Header text and lines of a document\<close>

text \<open>
  The notions the properties below are stated with, independent of the string methods
  above. \<open>is_header h doc\<close>: \<open>h\<close> is the part of \<open>doc\<close> before its first
  blank-line boundary (no occurrence of two newlines starts inside \<open>h\<close>), or all of
  \<open>doc\<close> when \<open>doc\<close> has no such boundary. \<open>is_lines ls h\<close>: \<open>ls\<close> are the lines
  of \<open>h\<close>, the newline-free pieces between its newlines.
\<close>

definition is_header :: "string \<Rightarrow> string \<Rightarrow> bool" where
  "is_header h doc \<longleftrightarrow>
     (doc = h \<and> \<not> sublist ''\<newline>\<newline>'' h) \<or>
     (prefix (h @ ''\<newline>\<newline>'') doc \<and> \<not> sublist ''\<newline>\<newline>'' (h @ ''\<newline>''))"

definition is_lines :: "string list \<Rightarrow> string \<Rightarrow> bool" where
  "is_lines ls h \<longleftrightarrow>
     ls \<noteq> [] \<and> (\<forall>l\<in>set ls. CHR ''\<newline>'' \<notin> set l) \<and>
     h = concat (map (\<lambda>l. l @ ''\<newline>'') (butlast ls)) @ last ls"

section \<open>Properties of the string methods\<close>

text \<open>The model's string methods against the library's notions: \<^const>\<open>prefix\<close>,
  \<^const>\<open>sublist\<close> (a contiguous occurrence), \<^const>\<open>count_list\<close> and \<^const>\<open>find\<close>.\<close>

lemma startswith_prefix: "startswith s p \<longleftrightarrow> prefix p s"
  unfolding startswith_def prefix_def
  by (metis append_eq_conv_conj)

lemma str_find_None_iff: "str_find s sub = None \<longleftrightarrow> \<not> sublist sub s"
  by (induction s) (auto simp: startswith_prefix sublist_Cons_right)

lemma str_find_first:
  assumes "sub \<noteq> []" and "\<not> sublist sub (h @ butlast sub)"
  shows "str_find (h @ sub @ b) sub = Some (length h)"
  using assms(2)
proof (induction h)
  case Nil
  from assms(1) obtain c cs where "sub @ b = c # cs"
    by (cases sub) auto
  moreover have "startswith (sub @ b) sub"
    by (simp add: startswith_def)
  ultimately show ?case by simp
next
  case (Cons x h)
  have no_start: "\<not> startswith ((x # h) @ sub @ b) sub"
  proof
    assume "startswith ((x # h) @ sub @ b) sub"
    then have "take (length sub) ((x # h) @ sub @ b) = sub"
      by (simp only: startswith_def)
    moreover have "take (length sub) ((x # h) @ sub @ b) = take (length sub) ((x # h) @ butlast sub)"
      using assms(1) by (simp add: take_Cons' butlast_conv_take)
    ultimately have "prefix sub ((x # h) @ butlast sub)"
      by (metis take_is_prefix)
    with Cons.prems show False by blast
  qed
  have "\<not> sublist sub (h @ butlast sub)"
    using Cons.prems by (simp add: sublist_Cons_right)
  with Cons.IH have "str_find (h @ sub @ b) sub = Some (length h)" .
  with no_start show ?case by simp
qed

lemma count_str_single: "count_str s [c] = count_list s c"
proof (induction s)
  case Nil
  show ?case by (simp add: count_str.simps)
next
  case (Cons x s)
  show ?case
  proof (cases "x = c")
    case True
    then have "count_str (x # s) [c] = 1 + count_str s [c]"
      by (subst count_str.simps) (simp add: startswith_def)
    with Cons True show ?thesis by simp
  next
    case False
    have "count_str (x # s) [c] = count_str s [c]"
      using count_str.simps [of "x # s" "[c]"] count_str.simps [of s "[c]"] False
      by (auto simp: startswith_def split: option.splits)
    with Cons False show ?thesis by simp
  qed
qed

lemma not_sublist_single: "c \<notin> set l \<Longrightarrow> \<not> sublist [c] l"
  by (auto dest: set_mono_sublist)

lemma split_at_no_sep: "\<not> sublist sep s \<Longrightarrow> split_at s sep = [s]"
  by (subst split_at.simps) (simp add: str_find_None_iff [symmetric])

lemma split_at_lines:
  assumes "ls \<noteq> []" and "\<forall>l\<in>set ls. c \<notin> set l"
  shows "split_at (concat (map (\<lambda>l. l @ [c]) (butlast ls)) @ last ls) [c] = ls"
  using assms
proof (induction ls)
  case Nil
  then show ?case by simp
next
  case (Cons l ls)
  show ?case
  proof (cases "ls = []")
    case True
    with Cons.prems show ?thesis
      by (simp add: split_at_no_sep not_sublist_single)
  next
    case False
    let ?rest = "concat (map (\<lambda>l. l @ [c]) (butlast ls)) @ last ls"
    have whole: "concat (map (\<lambda>l. l @ [c]) (butlast (l # ls))) @ last (l # ls) = l @ [c] @ ?rest"
      using False by simp
    have "\<not> sublist [c] (l @ butlast [c])"
      using Cons.prems by (simp add: not_sublist_single)
    then have found: "str_find (l @ [c] @ ?rest) [c] = Some (length l)"
      by (rule str_find_first [rotated]) simp
    have "split_at (l @ [c] @ ?rest) [c] = l # split_at ?rest [c]"
      by (subst split_at.simps) (use found in simp)
    moreover have "split_at ?rest [c] = ls"
      using Cons.IH False Cons.prems by simp
    ultimately show ?thesis
      by (simp only: whole)
  qed
qed

lemma scan_lines_find:
  "scan_lines pfx sub ls =
     (case find (\<lambda>l. prefix pfx l) ls of None \<Rightarrow> sub | Some l \<Rightarrow> drop (length pfx) l)"
  by (induction ls) (simp_all add: startswith_prefix)

section \<open>What the loop of SubjectBodyExtractor computes\<close>

text \<open>One round of the loop fills row \<open>i\<close> of both columns; the whole loop fills
  every row, so the array holds no \<^verbatim>\<open>None\<close> when it is returned, and no store is
  out of range.\<close>

lemma transform_post_eq:
  assumes "i < length S" and "i < length B"
  shows "transform_post sf sq [(''subject'', S), (''body'', B)] i text =
           Inr [(''subject'', S[i := Some (subject_of text)]),
                (''body'', B[i := Some (body_of sf sq text)])]"
  using assms
  by (simp add: transform_post_def partition_str_def split_str_def setitem_def
      headers_of_def bod_of_def subject_of_def body_of_def split: option.splits)

lemma transform_loop_eq:
  assumes "i + length posts \<le> length S" and "i + length posts \<le> length B"
  shows "transform_loop sf sq i posts [(''subject'', S), (''body'', B)] =
           Inr [(''subject'', take i S @ map (\<lambda>text. Some (subject_of text)) posts
                                @ drop (i + length posts) S),
                (''body'', take i B @ map (\<lambda>text. Some (body_of sf sq text)) posts
                             @ drop (i + length posts) B)]"
  using assms
proof (induction posts arbitrary: i S B rule: list.induct)
  case Nil
  then show ?case by simp
next
  case (Cons doc posts)
  from Cons.prems have i: "i < length S" "i < length B"
    by simp_all
  let ?S = "S[i := Some (subject_of doc)]"
  let ?B = "B[i := Some (body_of sf sq doc)]"
  have "transform_loop sf sq (Suc i) posts [(''subject'', ?S), (''body'', ?B)] =
          Inr [(''subject'', take (Suc i) ?S @ map (\<lambda>text. Some (subject_of text)) posts
                               @ drop (Suc i + length posts) ?S),
               (''body'', take (Suc i) ?B @ map (\<lambda>text. Some (body_of sf sq text)) posts
                            @ drop (Suc i + length posts) ?B)]"
    using Cons.prems by (intro Cons.IH) simp_all
  moreover have "take (Suc i) ?S = take i S @ [Some (subject_of doc)]"
    using i by (simp add: take_Suc_conv_app_nth)
  moreover have "take (Suc i) ?B = take i B @ [Some (body_of sf sq doc)]"
    using i by (simp add: take_Suc_conv_app_nth)
  ultimately show ?case
    using i by (simp add: transform_post_eq)
qed

lemma transform_eq:
  "SubjectBodyExtractor_transform sf sq posts =
     Inr [(''subject'', map (\<lambda>text. Some (subject_of text)) posts),
          (''body'', map (\<lambda>text. Some (body_of sf sq text)) posts)]"
  by (simp add: SubjectBodyExtractor_transform_def np_recarray_def transform_loop_eq)

section \<open>Header and lines, as the loop computes them\<close>

text \<open>\<^const>\<open>headers_of\<close> and \<^const>\<open>split_at\<close> compute the header text and its lines: every
  document has a header text, every text has lines, and both are unique.\<close>

lemma str_find_Some:
  assumes "str_find s sub = Some i" and "sub \<noteq> []"
  shows "s = take i s @ sub @ drop (i + length sub) s \<and> i < length s \<and>
         \<not> sublist sub (take i s @ butlast sub)"
  using assms(1)
proof (induction s arbitrary: i)
  case Nil
  with assms(2) show ?case by simp
next
  case (Cons c cs)
  show ?case
  proof (cases "startswith (c # cs) sub")
    case True
    with Cons.prems have "i = 0" by simp
    moreover have "\<not> sublist sub (butlast sub)"
      using assms(2) sublist_length_le [of sub "butlast sub"] by (cases sub) auto
    moreover from True have "take (length sub) (c # cs) = sub"
      by (simp only: startswith_def)
    then have "c # cs = sub @ drop (length sub) (c # cs)"
      by (metis append_take_drop_id)
    ultimately show ?thesis
      by simp
  next
    case False
    with Cons.prems obtain j where j: "str_find cs sub = Some j" "i = Suc j"
      by auto
    from Cons.IH [OF j(1)]
    have dec: "cs = take j cs @ sub @ drop (j + length sub) cs" and len: "j < length cs"
      and no: "\<not> sublist sub (take j cs @ butlast sub)"
      by simp_all
    have "prefix (take j cs @ butlast sub) (take j cs @ sub)"
      by (simp add: prefixeq_butlast)
    moreover have "prefix (take j cs @ sub) cs"
      by (subst (2) dec) simp
    ultimately have "prefix (c # take j cs @ butlast sub) (c # cs)"
      by (meson Cons_prefix_Cons prefix_order.trans)
    with False have "\<not> prefix sub (c # take j cs @ butlast sub)"
      by (meson startswith_prefix prefix_order.trans)
    with no have "\<not> sublist sub (take i (c # cs) @ butlast sub)"
      by (simp add: j(2) sublist_Cons_right)
    moreover have "c # cs = take i (c # cs) @ sub @ drop (i + length sub) (c # cs)"
      using dec by (simp add: j(2))
    ultimately show ?thesis
      using len j(2) by simp
  qed
qed

lemma headers_of_header:
  assumes "is_header h doc"
  shows "headers_of doc = h"
proof -
  from assms consider
      (none) "doc = h" "\<not> sublist ''\<newline>\<newline>'' h"
    | (cut) "prefix (h @ ''\<newline>\<newline>'') doc" "\<not> sublist ''\<newline>\<newline>'' (h @ ''\<newline>'')"
    unfolding is_header_def by blast
  then show ?thesis
  proof cases
    case none
    then show ?thesis
      by (simp add: headers_of_def str_find_None_iff [symmetric])
  next
    case cut
    then obtain b where doc: "doc = h @ ''\<newline>\<newline>'' @ b"
      by (auto simp: prefix_def)
    have "str_find (h @ ''\<newline>\<newline>'' @ b) ''\<newline>\<newline>'' = Some (length h)"
      using cut(2) by (intro str_find_first) simp_all
    then show ?thesis
      unfolding headers_of_def doc by simp
  qed
qed

lemma is_header_headers_of: "is_header (headers_of doc) doc"
proof (cases "str_find doc ''\<newline>\<newline>''")
  case None
  then have "\<not> sublist ''\<newline>\<newline>'' doc"
    by (simp add: str_find_None_iff)
  with None show ?thesis
    by (simp add: is_header_def headers_of_def)
next
  case (Some i)
  from str_find_Some [OF Some]
  have "doc = take i doc @ ''\<newline>\<newline>'' @ drop (i + length ''\<newline>\<newline>'') doc"
    and "\<not> sublist ''\<newline>\<newline>'' (take i doc @ ''\<newline>'')"
    by simp_all
  then have "prefix (take i doc @ ''\<newline>\<newline>'') doc"
    by (metis append.assoc prefixI)
  with \<open>\<not> sublist ''\<newline>\<newline>'' (take i doc @ ''\<newline>'')\<close> show ?thesis
    by (simp add: is_header_def headers_of_def Some)
qed

lemma bod_of_no_boundary: "\<not> sublist ''\<newline>\<newline>'' doc \<Longrightarrow> bod_of doc = ''''"
  by (simp add: bod_of_def str_find_None_iff [symmetric])

lemma bod_of_boundary:
  assumes "\<not> sublist ''\<newline>\<newline>'' (h @ ''\<newline>'')"
  shows "bod_of (h @ ''\<newline>\<newline>'' @ b) = b"
proof -
  have "str_find (h @ ''\<newline>\<newline>'' @ b) ''\<newline>\<newline>'' = Some (length h)"
    using assms by (intro str_find_first) simp_all
  then show ?thesis
    unfolding bod_of_def by simp
qed

lemma split_at_is_lines: "is_lines ls h \<Longrightarrow> split_at h ''\<newline>'' = ls"
  unfolding is_lines_def using split_at_lines [of ls "CHR ''\<newline>''"] by simp

lemma sublist_single: "sublist [c] l \<longleftrightarrow> c \<in> set l"
  by (induction l) (auto simp: sublist_Cons_right)

lemma is_lines_split_at: "is_lines (split_at h ''\<newline>'') h"
proof (induction h "''\<newline>''" rule: split_at.induct)
  case (1 s)
  show ?case
  proof (cases "str_find s ''\<newline>''")
    case None
    then have "split_at s ''\<newline>'' = [s]"
      by (subst split_at.simps) simp
    moreover from None have "CHR ''\<newline>'' \<notin> set s"
      by (simp add: str_find_None_iff sublist_single)
    ultimately show ?thesis by (simp add: is_lines_def)
  next
    case (Some i)
    let ?rest = "drop (i + length ''\<newline>'') s"
    from str_find_Some [OF Some]
    have s: "s = take i s @ ''\<newline>'' @ ?rest" and no: "CHR ''\<newline>'' \<notin> set (take i s)"
      by (simp_all add: sublist_single)
    have split: "split_at s ''\<newline>'' = take i s # split_at ?rest ''\<newline>''"
      by (subst split_at.simps) (simp add: Some)
    have IH: "is_lines (split_at ?rest ''\<newline>'') ?rest"
      using "1" Some by simp
    let ?R = "split_at ?rest ''\<newline>''"
    from IH have ne: "?R \<noteq> []"
      and all: "\<forall>l\<in>set ?R. CHR ''\<newline>'' \<notin> set l"
      and rest: "?rest = concat (map (\<lambda>l. l @ ''\<newline>'') (butlast ?R)) @ last ?R"
      unfolding is_lines_def by blast+
    have "concat (map (\<lambda>l. l @ ''\<newline>'') (butlast (take i s # ?R))) @ last (take i s # ?R)
            = take i s @ ''\<newline>'' @ (concat (map (\<lambda>l. l @ ''\<newline>'') (butlast ?R)) @ last ?R)"
      using ne by simp
    also have "\<dots> = take i s @ ''\<newline>'' @ ?rest"
      by (subst rest [symmetric]) (rule refl)
    also have "\<dots> = s"
      by (rule s [symmetric])
    finally have "s = concat (map (\<lambda>l. l @ ''\<newline>'') (butlast (take i s # ?R)))
                        @ last (take i s # ?R)"
      by (rule sym)
    moreover have "\<forall>l\<in>set (take i s # ?R). CHR ''\<newline>'' \<notin> set l"
      using all no by simp
    ultimately show ?thesis
      unfolding is_lines_def split by blast
  qed
qed

lemma subject_of_eq:
  assumes "is_header h doc" and "is_lines ls h"
  shows "subject_of doc =
           (case find (prefix ''Subject:'') ls of None \<Rightarrow> '''' | Some l \<Rightarrow> drop (length ''Subject:'') l)"
  using assms by (simp add: subject_of_def headers_of_header split_at_is_lines scan_lines_find)

lemma scan_lines_first:
  assumes "\<forall>x\<in>set pre. \<not> prefix pfx x" and "prefix pfx l"
  shows "scan_lines pfx sub (pre @ l # post) = drop (length pfx) l"
  using assms by (induction pre) (simp_all add: startswith_prefix)

section \<open>The claims\<close>

subsection \<open>TextStats\<close>

text \<open>
  Claim C4. For every sequence of \<open>N\<close> body strings, \<^verbatim>\<open>TextStats.transform\<close> returns
  \<open>N\<close> records in the same order; the record of the string \<open>s\<close> maps
  \<^verbatim>\<open>length\<close> to the number of characters of \<open>s\<close> and \<^verbatim>\<open>num_sentences\<close> to the
  number of occurrences of the character \<^verbatim>\<open>.\<close> in \<open>s\<close>. On the single body
  \<^verbatim>\<open>Hello. World.\<close> the record is \<^verbatim>\<open>{length: 13, num_sentences: 2}\<close>.
\<close>

theorem TextStats_transform_records:
  "TextStats_transform posts =
     map (\<lambda>s. [''length'' \<mapsto> int (length s),
                ''num_sentences'' \<mapsto> int (count_list s CHR ''.'')]) posts
   \<and> length (TextStats_transform posts) = length posts
   \<and> TextStats_transform [''Hello. World.''] = [[''length'' \<mapsto> 13, ''num_sentences'' \<mapsto> 2]]"
  by (simp add: TextStats_transform_def count_str_single)

theorem TextStats_transform_records_witness:
  "TextStats_transform [''a.b'', '''', ''...''] =
     [[''length'' \<mapsto> 3, ''num_sentences'' \<mapsto> 1],
      [''length'' \<mapsto> 0, ''num_sentences'' \<mapsto> 0],
      [''length'' \<mapsto> 3, ''num_sentences'' \<mapsto> 3]]"
  using TextStats_transform_records [of "[''a.b'', '''', ''...'']"] by simp

subsection \<open>The pipeline's feature union\<close>

text \<open>
  Claim C8. The step \<^verbatim>\<open>union\<close> of the pipeline is a feature union of exactly three named
  sub-pipelines, \<^verbatim>\<open>subject\<close>, \<^verbatim>\<open>body_bow\<close> and \<^verbatim>\<open>body_stats\<close> in this order, with the
  weights 0.8, 0.5 and 1.0.
\<close>

theorem pipeline_union_weights:
  "\<exists>union. map_of (steps pipeline) ''union'' = Some union
     \<and> map fst (transformer_list union) = [''subject'', ''body_bow'', ''body_stats'']
     \<and> transformer_weights union = [(''subject'', 0.8), (''body_bow'', 0.5), (''body_stats'', 1.0)]
     \<and> map_of (transformer_weights union) ''subject'' = Some 0.8
     \<and> map_of (transformer_weights union) ''body_bow'' = Some 0.5
     \<and> map_of (transformer_weights union) ''body_stats'' = Some 1.0"
  by (simp add: pipeline_def)

subsection \<open>SubjectBodyExtractor\<close>

text \<open>
  Claim C2. For every batch of \<open>N\<close> documents, \<^verbatim>\<open>SubjectBodyExtractor.transform\<close>
  returns a record array with exactly the two fields \<^verbatim>\<open>subject\<close> and \<^verbatim>\<open>body\<close>; each
  column holds \<open>N\<close> strings, and row \<open>i\<close> of each column is computed from document
  \<open>i\<close> alone, so the order of the rows is the order of the documents.
\<close>

theorem SubjectBodyExtractor_transform_fields:
  "\<exists>features subjects bodies.
     SubjectBodyExtractor_transform sf sq posts = Inr features
     \<and> map fst features = [''subject'', ''body'']
     \<and> map_of features ''subject'' = Some (map Some subjects)
     \<and> map_of features ''body'' = Some (map Some bodies)
     \<and> length subjects = length posts
     \<and> length bodies = length posts
     \<and> subjects = map subject_of posts
     \<and> bodies = map (body_of sf sq) posts"
  by (simp add: transform_eq comp_def)

theorem SubjectBodyExtractor_transform_fields_witness:
  "SubjectBodyExtractor_transform id id
     [''Subject: one\<newline>\<newline>first'', ''second'', ''From: x\<newline>Subject:three\<newline>\<newline>third'']
   = Inr [(''subject'', [Some '' one'', Some '''', Some ''three'']),
          (''body'', [Some ''first'', Some '''', Some ''third''])]"
  using SubjectBodyExtractor_transform_fields
          [of id id "[''Subject: one\<newline>\<newline>first'', ''second'', ''From: x\<newline>Subject:three\<newline>\<newline>third'']"]
  by (auto simp: subject_of_def body_of_def headers_of_def bod_of_def split_at.simps
        startswith_def)

text \<open>
  Claim C3. For every document, the subject is found by scanning the lines of the header
  text (the part before the first blank-line boundary) for a line that begins with
  \<^verbatim>\<open>Subject:\<close>; the subject is the rest of that line after the prefix, with nothing
  else removed, and the empty string when no line begins with the prefix. A document
  with the header line \<^verbatim>\<open>Subject: Hello World\<close> has the subject \<^verbatim>\<open> Hello World\<close>, with
  its leading space. Every document has a header text, and every header text has lines.
\<close>

theorem subject_from_header_line:
  assumes "i < length posts" and "is_header h (posts ! i)" and "is_lines ls h"
  shows "(\<exists>features subjects.
            SubjectBodyExtractor_transform sf sq posts = Inr features
            \<and> map_of features ''subject'' = Some subjects
            \<and> subjects ! i =
                Some (case find (prefix ''Subject:'') ls of
                        None \<Rightarrow> ''''
                      | Some line \<Rightarrow> drop (length ''Subject:'') line))
         \<and> (\<exists>features.
            SubjectBodyExtractor_transform sf sq
              [''Subject: Hello World\<newline>\<newline>Line one.\<newline>Line two.''] = Inr features
            \<and> map_of features ''subject'' = Some [Some '' Hello World''])
         \<and> (\<exists>h ls. is_header h (posts ! i) \<and> is_lines ls h)"
proof (intro conjI)
  show "\<exists>features subjects.
            SubjectBodyExtractor_transform sf sq posts = Inr features
            \<and> map_of features ''subject'' = Some subjects
            \<and> subjects ! i =
                Some (case find (prefix ''Subject:'') ls of
                        None \<Rightarrow> ''''
                      | Some line \<Rightarrow> drop (length ''Subject:'') line)"
    using assms(1) subject_of_eq [OF assms(2,3)] by (simp add: transform_eq)
next
  have "is_header ''Subject: Hello World''
          ''Subject: Hello World\<newline>\<newline>Line one.\<newline>Line two.''"
    by (simp add: is_header_def sublist_Cons_right)
  moreover have "is_lines [''Subject: Hello World''] ''Subject: Hello World''"
    by (simp add: is_lines_def)
  ultimately have "subject_of ''Subject: Hello World\<newline>\<newline>Line one.\<newline>Line two.'' = '' Hello World''"
    by (simp add: subject_of_eq)
  then show "\<exists>features.
            SubjectBodyExtractor_transform sf sq
              [''Subject: Hello World\<newline>\<newline>Line one.\<newline>Line two.''] = Inr features
            \<and> map_of features ''subject'' = Some [Some '' Hello World'']"
    by (simp add: transform_eq)
next
  show "\<exists>h ls. is_header h (posts ! i) \<and> is_lines ls h"
    using is_header_headers_of is_lines_split_at by blast
qed

theorem subject_from_header_line_witness:
  "(1::nat) < length [''x'', ''From: a\<newline>Subject: Re: hi\<newline>Lines: 3\<newline>\<newline>text\<newline>\<newline>more'']
   \<and> is_header ''From: a\<newline>Subject: Re: hi\<newline>Lines: 3''
        ([''x'', ''From: a\<newline>Subject: Re: hi\<newline>Lines: 3\<newline>\<newline>text\<newline>\<newline>more''] ! 1)
   \<and> is_lines [''From: a'', ''Subject: Re: hi'', ''Lines: 3''] ''From: a\<newline>Subject: Re: hi\<newline>Lines: 3''
   \<and> (\<exists>features subjects.
         SubjectBodyExtractor_transform id id
           [''x'', ''From: a\<newline>Subject: Re: hi\<newline>Lines: 3\<newline>\<newline>text\<newline>\<newline>more''] = Inr features
         \<and> map_of features ''subject'' = Some subjects
         \<and> subjects ! 1 = Some '' Re: hi'')"
proof -
  let ?posts = "[''x'', ''From: a\<newline>Subject: Re: hi\<newline>Lines: 3\<newline>\<newline>text\<newline>\<newline>more'']"
  have i: "(1::nat) < length ?posts"
    by simp
  have h: "is_header ''From: a\<newline>Subject: Re: hi\<newline>Lines: 3'' (?posts ! 1)"
    by (simp add: is_header_def sublist_Cons_right)
  have ls: "is_lines [''From: a'', ''Subject: Re: hi'', ''Lines: 3''] ''From: a\<newline>Subject: Re: hi\<newline>Lines: 3''"
    by (simp add: is_lines_def)
  from subject_from_header_line [OF i h ls, of id id] i h ls show ?thesis
    by simp
qed

text \<open>
  Claim C9. When several lines of the header begin with \<^verbatim>\<open>Subject:\<close>, the subject is
  taken from the first of them: the scan stops there, and whatever follows that line,
  further \<^verbatim>\<open>Subject:\<close> lines included, has no effect.
\<close>

theorem first_subject_line_wins:
  assumes "i < length posts" and "is_header h (posts ! i)"
    and "is_lines (pre @ line # post) h"
    and "\<forall>x\<in>set pre. \<not> prefix ''Subject:'' x" and "prefix ''Subject:'' line"
  shows "\<exists>features subjects.
           SubjectBodyExtractor_transform sf sq posts = Inr features
           \<and> map_of features ''subject'' = Some subjects
           \<and> subjects ! i = Some (drop (length ''Subject:'') line)"
proof -
  have "subject_of (posts ! i) = scan_lines ''Subject:'' '''' (pre @ line # post)"
    using assms(2,3) by (simp add: subject_of_def headers_of_header split_at_is_lines)
  also have "\<dots> = drop (length ''Subject:'') line"
    using assms(4,5) by (rule scan_lines_first)
  finally show ?thesis
    using assms(1) by (simp add: transform_eq)
qed

theorem first_subject_line_wins_witness:
  "(0::nat) < length [''From: a\<newline>Subject: first\<newline>Subject: second\<newline>\<newline>text'']
   \<and> is_header ''From: a\<newline>Subject: first\<newline>Subject: second''
        ([''From: a\<newline>Subject: first\<newline>Subject: second\<newline>\<newline>text''] ! 0)
   \<and> is_lines ([''From: a''] @ ''Subject: first'' # [''Subject: second''])
        ''From: a\<newline>Subject: first\<newline>Subject: second''
   \<and> \<not> prefix ''Subject:'' ''From: a''
   \<and> prefix ''Subject:'' ''Subject: first''
   \<and> prefix ''Subject:'' ''Subject: second''
   \<and> (\<exists>features subjects.
         SubjectBodyExtractor_transform id id
           [''From: a\<newline>Subject: first\<newline>Subject: second\<newline>\<newline>text''] = Inr features
         \<and> map_of features ''subject'' = Some subjects
         \<and> subjects ! 0 = Some '' first'')"
proof -
  let ?posts = "[''From: a\<newline>Subject: first\<newline>Subject: second\<newline>\<newline>text'']"
  have i: "(0::nat) < length ?posts"
    by simp
  have h: "is_header ''From: a\<newline>Subject: first\<newline>Subject: second'' (?posts ! 0)"
    by (simp add: is_header_def sublist_Cons_right)
  have ls: "is_lines ([''From: a''] @ ''Subject: first'' # [''Subject: second''])
              ''From: a\<newline>Subject: first\<newline>Subject: second''"
    by (simp add: is_lines_def)
  have pre: "\<forall>x\<in>set [''From: a'']. \<not> prefix ''Subject:'' x"
    by simp
  have line: "prefix ''Subject:'' ''Subject: first''"
    by simp
  from first_subject_line_wins [OF i h ls pre line, of id id] i h ls pre line show ?thesis
    by simp
qed




text \<open>
  Claim C10 says that in a document without a blank-line boundary a \<^verbatim>\<open>Subject:\<close> line
  anywhere still yields a non-empty subject. The document that consists of the line
  \<^verbatim>\<open>Subject:\<close> alone has no boundary and a line that begins with the prefix, and its
  subject is the empty string.
\<close>

theorem no_boundary_subject_line_counterexample:
  "\<not> sublist ''\<newline>\<newline>'' ''Subject:''
   \<and> is_lines [''Subject:''] ''Subject:''
   \<and> prefix ''Subject:'' ''Subject:''
   \<and> SubjectBodyExtractor_transform id id [''Subject:'']
       = Inr [(''subject'', [Some '''']), (''body'', [Some ''''])]"
proof -
  have nb: "\<not> sublist ''\<newline>\<newline>'' ''Subject:''"
    by (simp add: sublist_Cons_right)
  have ls: "is_lines [''Subject:''] ''Subject:''"
    by (simp add: is_lines_def)
  from nb have h: "is_header ''Subject:'' ''Subject:''"
    by (simp add: is_header_def)
  have "subject_of ''Subject:'' = ''''"
    by (simp add: subject_of_eq [OF h ls])
  moreover from nb have "bod_of ''Subject:'' = ''''"
    by (rule bod_of_no_boundary)
  ultimately show ?thesis
    using nb ls by (simp add: transform_eq body_of_def)
qed

text \<open>
  Claim C10, amended. For every document with no occurrence of two newlines in a row,
  the whole document is the header text: the subject is the rest of its first line that
  begins with \<^verbatim>\<open>Subject:\<close> (non-empty whenever that line is longer than the prefix,
  and the empty string when there is no such line), and the body is what the two
  external clean-up functions return for the empty string, hence the empty string when
  they leave it empty. The boundary is exactly two newline characters: a document whose
  header and body are separated by carriage-return/newline pairs is not split.
\<close>

theorem no_boundary_whole_text_is_header:
  assumes "i < length posts" and "\<not> sublist ''\<newline>\<newline>'' (posts ! i)"
    and "is_lines ls (posts ! i)"
  shows "(\<exists>features subjects bodies.
            SubjectBodyExtractor_transform sf sq posts = Inr features
            \<and> map_of features ''subject'' = Some subjects
            \<and> map_of features ''body'' = Some bodies
            \<and> subjects ! i =
                Some (case find (prefix ''Subject:'') ls of
                        None \<Rightarrow> ''''
                      | Some line \<Rightarrow> drop (length ''Subject:'') line)
            \<and> (\<forall>line. find (prefix ''Subject:'') ls = Some line \<and> line \<noteq> ''Subject:''
                  \<longrightarrow> subjects ! i \<noteq> Some '''')
            \<and> bodies ! i = Some (sq (sf ''''))
            \<and> (sq (sf '''') = '''' \<longrightarrow> bodies ! i = Some ''''))
         \<and> (\<exists>features.
            SubjectBodyExtractor_transform sf sq
              [''Subject: a'' @ [CHR 0x0D, CHR ''\<newline>'', CHR 0x0D, CHR ''\<newline>''] @ ''text'']
              = Inr features
            \<and> map_of features ''subject'' = Some [Some ('' a'' @ [CHR 0x0D])]
            \<and> map_of features ''body'' = Some [Some (sq (sf ''''))])"
proof
  from assms(2) have h: "is_header (posts ! i) (posts ! i)"
    by (simp add: is_header_def)
  have sub: "subject_of (posts ! i) =
               (case find (prefix ''Subject:'') ls of
                  None \<Rightarrow> ''''
                | Some line \<Rightarrow> drop (length ''Subject:'') line)"
    using h assms(3) by (rule subject_of_eq)
  have bod: "body_of sf sq (posts ! i) = sq (sf '''')"
    using assms(2) by (simp add: body_of_def bod_of_no_boundary)
  have longer: "drop (length ''Subject:'') line \<noteq> ''''"
    if "find (prefix ''Subject:'') ls = Some line" and "line \<noteq> ''Subject:''" for line
  proof -
    from that(1) have "prefix ''Subject:'' line"
      by (auto simp: find_Some_iff)
    then obtain rest where "line = ''Subject:'' @ rest"
      by (auto simp: prefix_def)
    with that(2) show ?thesis by auto
  qed
  show "\<exists>features subjects bodies.
            SubjectBodyExtractor_transform sf sq posts = Inr features
            \<and> map_of features ''subject'' = Some subjects
            \<and> map_of features ''body'' = Some bodies
            \<and> subjects ! i =
                Some (case find (prefix ''Subject:'') ls of
                        None \<Rightarrow> ''''
                      | Some line \<Rightarrow> drop (length ''Subject:'') line)
            \<and> (\<forall>line. find (prefix ''Subject:'') ls = Some line \<and> line \<noteq> ''Subject:''
                  \<longrightarrow> subjects ! i \<noteq> Some '''')
            \<and> bodies ! i = Some (sq (sf ''''))
            \<and> (sq (sf '''') = '''' \<longrightarrow> bodies ! i = Some '''')"
    using assms(1) sub bod longer by (auto simp: transform_eq)
next
  let ?doc = "''Subject: a'' @ [CHR 0x0D, CHR ''\<newline>'', CHR 0x0D, CHR ''\<newline>''] @ ''text''"
  have nb: "\<not> sublist ''\<newline>\<newline>'' ?doc"
    by (simp add: sublist_Cons_right)
  then have h: "is_header ?doc ?doc"
    by (simp add: is_header_def)
  have ls: "is_lines [''Subject: a'' @ [CHR 0x0D], [CHR 0x0D], ''text''] ?doc"
    by (simp add: is_lines_def)
  have "subject_of ?doc = '' a'' @ [CHR 0x0D]"
    using subject_of_eq [OF h ls] by simp
  moreover from nb have "bod_of ?doc = ''''"
    by (rule bod_of_no_boundary)
  ultimately show "\<exists>features.
            SubjectBodyExtractor_transform sf sq [?doc] = Inr features
            \<and> map_of features ''subject'' = Some [Some ('' a'' @ [CHR 0x0D])]
            \<and> map_of features ''body'' = Some [Some (sq (sf ''''))]"
    by (simp add: transform_eq body_of_def)
qed

theorem no_boundary_whole_text_is_header_witness:
  "(0::nat) < length [''From: x\<newline>Subject: hi'']
   \<and> \<not> sublist ''\<newline>\<newline>'' ([''From: x\<newline>Subject: hi''] ! 0)
   \<and> is_lines [''From: x'', ''Subject: hi''] ([''From: x\<newline>Subject: hi''] ! 0)
   \<and> (\<exists>features subjects bodies.
         SubjectBodyExtractor_transform id id [''From: x\<newline>Subject: hi''] = Inr features
         \<and> map_of features ''subject'' = Some subjects
         \<and> map_of features ''body'' = Some bodies
         \<and> subjects ! 0 = Some '' hi''
         \<and> bodies ! 0 = Some '''')"
proof -
  let ?posts = "[''From: x\<newline>Subject: hi'']"
  have i: "(0::nat) < length ?posts"
    by simp
  have nb: "\<not> sublist ''\<newline>\<newline>'' (?posts ! 0)"
    by (simp add: sublist_Cons_right)
  have ls: "is_lines [''From: x'', ''Subject: hi''] (?posts ! 0)"
    by (simp add: is_lines_def)
  from no_boundary_whole_text_is_header [OF i nb ls, of id id] i nb ls show ?thesis
    by auto
qed

subsection \<open>ItemSelector\<close>

text \<open>
  Claim C5 says that on every field batch that lacks the configured key
  \<^verbatim>\<open>ItemSelector.transform\<close> fails with an exception of the \<^verbatim>\<open>LookupError\<close> class.
  On the record array that \<^verbatim>\<open>SubjectBodyExtractor\<close> returns it does not: with the key
  \<^verbatim>\<open>missing\<close> the selector fails with \<^verbatim>\<open>ValueError\<close>, which is not a
  \<^verbatim>\<open>LookupError\<close>.
\<close>

theorem ItemSelector_transform_recarray_counterexample:
  "SubjectBodyExtractor_transform id id [''Subject: a\<newline>\<newline>b'']
     = Inr [(''subject'', [Some '' a'']), (''body'', [Some ''b''])]
   \<and> ''missing'' \<notin> dom (items (RecArray [(''subject'', [Some '' a'']), (''body'', [Some ''b''])]))
   \<and> ItemSelector_transform (ItemSelector_init ''missing'')
         (RecArray [(''subject'', [Some '' a'']), (''body'', [Some ''b''])]) = Inl ValueError
   \<and> \<not> is_LookupError ValueError"
  by (simp add: transform_eq subject_of_def body_of_def headers_of_def bod_of_def
      split_at.simps startswith_def ItemSelector_transform_def ItemSelector_init_def)

text \<open>
  Claim C5, amended. When the configured key is absent from the field batch,
  \<^verbatim>\<open>ItemSelector.transform\<close> fails and never returns a value; the exception is the
  collection's own: \<^verbatim>\<open>KeyError\<close>, of the \<^verbatim>\<open>LookupError\<close> class, for a \<^verbatim>\<open>dict\<close>,
  and \<^verbatim>\<open>ValueError\<close> for a record array.
\<close>

theorem ItemSelector_transform_absent:
  assumes "key self \<notin> dom (items data_dict)"
  shows "ItemSelector_transform self data_dict =
           Inl (case data_dict of Dict d \<Rightarrow> KeyError | RecArray a \<Rightarrow> ValueError)
         \<and> (\<forall>v. ItemSelector_transform self data_dict \<noteq> Inr v)
         \<and> ((\<exists>d. data_dict = Dict d) \<longrightarrow>
              (\<exists>e. ItemSelector_transform self data_dict = Inl e \<and> is_LookupError e))"
  using assms
  by (cases data_dict) (auto simp: ItemSelector_transform_def split: option.splits)

theorem ItemSelector_transform_absent_witness:
  "key (ItemSelector_init ''missing'')
     \<notin> dom (items (Dict [''subject'' \<mapsto> [''s''], ''body'' \<mapsto> [''b'']]))
   \<and> ItemSelector_transform (ItemSelector_init ''missing'')
         (Dict [''subject'' \<mapsto> [''s''], ''body'' \<mapsto> [''b'']]) = Inl KeyError
   \<and> is_LookupError KeyError"
proof -
  have absent: "key (ItemSelector_init ''missing'')
                  \<notin> dom (items (Dict [''subject'' \<mapsto> [''s''], ''body'' \<mapsto> [''b'']]))"
    by (simp add: ItemSelector_init_def)
  from ItemSelector_transform_absent [OF absent] absent show ?thesis
    by simp
qed

text \<open>
  Claim C7. When the field batch contains the configured key, \<^verbatim>\<open>ItemSelector.transform\<close>
  returns exactly the value stored under that key; \<^verbatim>\<open>fit\<close> returns the selector
  itself, unchanged, so a transform after \<^verbatim>\<open>fit\<close> gives the same result.
\<close>

theorem ItemSelector_transform_present:
  assumes "items data_dict (key self) = Some v"
  shows "ItemSelector_transform self data_dict = Inr v
         \<and> ItemSelector_fit self x y = self
         \<and> ItemSelector_transform (ItemSelector_fit self x y) data_dict = Inr v"
  using assms
  by (cases data_dict) (simp_all add: ItemSelector_transform_def ItemSelector_fit_def)

theorem ItemSelector_transform_present_witness:
  "items (Dict [''a'' \<mapsto> [1, 5, 2, 5, 2, 8::int], ''b'' \<mapsto> [9, 4, 1, 4, 1, 3]])
     (key (ItemSelector_init ''a'')) = Some [1, 5, 2, 5, 2, 8]
   \<and> ItemSelector_transform (ItemSelector_fit (ItemSelector_init ''a'') () None)
        (Dict [''a'' \<mapsto> [1, 5, 2, 5, 2, 8::int], ''b'' \<mapsto> [9, 4, 1, 4, 1, 3]])
      = Inr [1, 5, 2, 5, 2, 8]"
proof -
  let ?data = "Dict [''a'' \<mapsto> [1, 5, 2, 5, 2, 8::int], ''b'' \<mapsto> [9, 4, 1, 4, 1, 3]]"
  have present: "items ?data (key (ItemSelector_init ''a'')) = Some [1, 5, 2, 5, 2, 8]"
    by (simp add: ItemSelector_init_def)
  from ItemSelector_transform_present [OF present, of "()" None] present show ?thesis
    by blast
qed

end
